theory Spec2Isabelle
  imports Main "HOL-Library.Multiset"
begin

section \<open>Strings and numbers as the program uses them\<close>

text \<open>
  \<^verbatim>\<open>String.prototype.includes\<close>: does the second string occur in the first as a
  contiguous run of characters?
\<close>

fun starts_with :: "string \<Rightarrow> string \<Rightarrow> bool" where
  "starts_with s [] = True"
| "starts_with [] (c # t) = False"
| "starts_with (a # s) (c # t) = (a = c \<and> starts_with s t)"

fun str_includes :: "string \<Rightarrow> string \<Rightarrow> bool" where
  "str_includes [] t = (t = [])"
| "str_includes (a # s) t = (starts_with (a # s) t \<or> str_includes s t)"

text \<open>A number inside a template literal: its decimal digits.\<close>

definition digit_char :: "nat \<Rightarrow> char" where
  "digit_char d = ''0123456789'' ! (d mod 10)"

fun show_nat :: "nat \<Rightarrow> string" where
  "show_nat n = (if n < 10 then [digit_char n] else show_nat (n div 10) @ [digit_char (n mod 10)])"

declare show_nat.simps [simp del]

definition dquote :: string where
  "dquote = [CHR 0x22]"

section \<open>Data model\<close>

text \<open>
  One scraped result, as \<^verbatim>\<open>page.evaluate\<close> builds it. The snippet is optional
  because \<^verbatim>\<open>saveResults\<close> guards it with \<^verbatim>\<open>|| ''\<close>.
\<close>

record search_result_item =
  item_title :: string
  item_url :: string
  item_snippet :: "string option"

text \<open>
  One entry of \<^verbatim>\<open>rankings.json\<close>. \<^verbatim>\<open>None\<close> is JSON \<^verbatim>\<open>null\<close>. The timestamp is the
  instant in milliseconds since the epoch, which \<^verbatim>\<open>toISOString\<close> writes and
  \<^verbatim>\<open>new Date(...)\<close> reads back.
\<close>

record ranking_record =
  keyword :: string
  rank :: "nat option"
  title :: "string option"
  url :: "string option"
  timestamp :: int
  snippet :: "string option"

datatype error = Error string

datatype level = Info | Warn | Error_level

datatype trend = Improved | Dropped | No_change | Not_available

datatype console_line = Line string | Trend_line trend

text \<open>
  What the analyzer touches outside itself: the results file (\<^verbatim>\<open>Inl msg\<close> when
  reading or parsing it throws with that message, otherwise the parsed array; a file
  that holds JSON other than an array is not modelled), whether writing it throws, the
  logger, the console, whether writing a CSV file throws, and the CSV files written so
  far.
\<close>

record analyzer_world =
  results_file :: "string + ranking_record list"
  write_failure :: "string option"
  analyzer_log :: "(level \<times> string) list"
  console :: "console_line list"
  csv_failure :: "string option"
  csv_files :: "(string \<times> ranking_record list) list"

definition targetDomain :: string where
  "targetDomain = ''webreinvent.com''"

definition logger :: "level \<Rightarrow> string \<Rightarrow> analyzer_world \<Rightarrow> analyzer_world" where
  "logger lv msg w = w\<lparr>analyzer_log := analyzer_log w @ [(lv, msg)]\<rparr>"

text \<open>JavaScript truthiness of a rank: \<^verbatim>\<open>null\<close> and \<^verbatim>\<open>0\<close> are falsy.\<close>

definition truthy :: "nat option \<Rightarrow> bool" where
  "truthy r = (case r of None \<Rightarrow> False | Some n \<Rightarrow> n \<noteq> 0)"

section \<open>RankingAnalyzer.saveResults\<close>

text \<open>
  The scan for the target domain, from index \<open>i\<close> on: the position (\<open>i + 1\<close>) and
  the item of the first match, or nothing (\<^verbatim>\<open>ranking\<close> and \<^verbatim>\<open>matchedResult\<close> both
  stay \<^verbatim>\<open>null\<close>).
\<close>

fun find_position :: "search_result_item list \<Rightarrow> nat \<Rightarrow> (nat \<times> search_result_item) option" where
  "find_position [] i = None"
| "find_position (r # rs) i =
     (if str_includes (item_url r) targetDomain then Some (i + 1, r)
      else find_position rs (i + 1))"

text \<open>\<^verbatim>\<open>matchedResult.snippet || ''\<close>\<close>

definition snippet_or_empty :: "string option \<Rightarrow> string" where
  "snippet_or_empty s = (case s of None \<Rightarrow> [] | Some t \<Rightarrow> (if t = [] then [] else t))"

definition found_record :: "string \<Rightarrow> nat \<Rightarrow> search_result_item \<Rightarrow> int \<Rightarrow> ranking_record" where
  "found_record kw ranking matchedResult now =
     \<lparr>keyword = kw, rank = Some ranking, title = Some (item_title matchedResult),
      url = Some (item_url matchedResult), timestamp = now,
      snippet = Some (snippet_or_empty (item_snippet matchedResult))\<rparr>"

definition not_found_record :: "string \<Rightarrow> int \<Rightarrow> ranking_record" where
  "not_found_record kw now =
     \<lparr>keyword = kw, rank = None, title = None, url = None, timestamp = now, snippet = None\<rparr>"

definition found_message :: "nat \<Rightarrow> string \<Rightarrow> string" where
  "found_message ranking kw =
     ''Found '' @ targetDomain @ '' at position '' @ show_nat ranking @ '' for '' @ dquote @ kw @ dquote"

definition not_found_message :: "string \<Rightarrow> string" where
  "not_found_message kw = targetDomain @ '' not found in results for '' @ dquote @ kw @ dquote"

text \<open>
  The branch on \<^verbatim>\<open>if (ranking)\<close>: the array with the new entry pushed, and the world
  after the log line.
\<close>

definition add_ranking ::
  "string \<Rightarrow> (nat \<times> search_result_item) option \<Rightarrow> int \<Rightarrow> ranking_record list \<Rightarrow> analyzer_world
     \<Rightarrow> ranking_record list \<times> analyzer_world" where
  "add_ranking kw found now rankings w =
     (case found of
        Some (ranking, matchedResult) \<Rightarrow>
          (if ranking \<noteq> 0
           then (rankings @ [found_record kw ranking matchedResult now],
                 logger Info (found_message ranking kw) w)
           else (rankings @ [not_found_record kw now],
                 logger Warn (not_found_message kw) w))
      | None \<Rightarrow>
          (rankings @ [not_found_record kw now], logger Warn (not_found_message kw) w))"

text \<open>
  \<^verbatim>\<open>saveResults(keyword, searchResults)\<close> at clock reading \<open>now\<close> has two steps, with
  an \<^verbatim>\<open>await\<close> between them at which other calls on the same analyzer can run. The
  first step scans the results, reads the file, pushes the new entry onto the array it
  read and logs; it yields that array. Every throw inside the \<^verbatim>\<open>try\<close> is logged and
  thrown again, so a failed step returns \<open>Inl\<close>.
\<close>

definition saveResults_read ::
  "string \<Rightarrow> search_result_item list \<Rightarrow> int \<Rightarrow> analyzer_world
     \<Rightarrow> (error + ranking_record list) \<times> analyzer_world" where
  "saveResults_read kw searchResults now w =
     (let found = find_position searchResults 0 in
      case results_file w of
        Inl msg \<Rightarrow> (Inl (Error msg), logger Error_level (''Failed to save results: '' @ msg) w)
      | Inr rankings \<Rightarrow>
          (case add_ranking kw found now rankings w of
             (rankings', w1) \<Rightarrow> (Inr rankings', w1)))"

text \<open>
  The second step writes the whole array over the file, in the world as it is by then.
  A failed write is taken to leave the file as it was.
\<close>

definition saveResults_write ::
  "ranking_record list \<Rightarrow> analyzer_world \<Rightarrow> (error + unit) \<times> analyzer_world" where
  "saveResults_write rankings' w =
     (case write_failure w of
        Some msg \<Rightarrow> (Inl (Error msg), logger Error_level (''Failed to save results: '' @ msg) w)
      | None \<Rightarrow> (Inr (), w\<lparr>results_file := Inr rankings'\<rparr>))"

text \<open>The call when nothing else runs between its two steps.\<close>

definition saveResults ::
  "string \<Rightarrow> search_result_item list \<Rightarrow> int \<Rightarrow> analyzer_world \<Rightarrow> (error + unit) \<times> analyzer_world" where
  "saveResults kw searchResults now w =
     (case saveResults_read kw searchResults now w of
        (Inl e, w1) \<Rightarrow> (Inl e, w1)
      | (Inr rankings', w1) \<Rightarrow> saveResults_write rankings' w1)"

section \<open>Objects used as dictionaries\<close>

text \<open>
  \<^verbatim>\<open>generateReport\<close> and \<^verbatim>\<open>getKeywordSummary\<close> index an object that starts as \<^verbatim>\<open>{}\<close>
  by keyword. Such an object inherits the members of \<^verbatim>\<open>Object.prototype\<close>: looking one
  of these names up finds the inherited member, which is truthy, is not an array and
  has no \<^verbatim>\<open>history\<close>. Every other name is found only once it has been assigned.
\<close>

definition inherited_member :: "string \<Rightarrow> bool" where
  "inherited_member k =
     (k \<in> set [''constructor'', ''__defineGetter__'', ''__defineSetter__'', ''hasOwnProperty'',
               ''__lookupGetter__'', ''__lookupSetter__'', ''isPrototypeOf'',
               ''propertyIsEnumerable'', ''toString'', ''valueOf'', ''__proto__'',
               ''toLocaleString''])"

section \<open>RankingAnalyzer.generateReport\<close>

text \<open>
  The \<^verbatim>\<open>reduce\<close> that groups by keyword. The accumulator object is an association
  list of its own keys in the order they were created. \<open>push_group\<close> is the callback
  for a keyword that is not an inherited name: it creates the group if there is none and
  pushes the record.
\<close>

fun push_group ::
  "(string \<times> ranking_record list) list \<Rightarrow> ranking_record \<Rightarrow> (string \<times> ranking_record list) list" where
  "push_group [] cur = [(keyword cur, [cur])]"
| "push_group ((k, rs) # groups) cur =
     (if k = keyword cur then (k, rs @ [cur]) # groups else (k, rs) # push_group groups cur)"

text \<open>
  For a keyword that is an inherited name, \<^verbatim>\<open>!acc[curr.keyword]\<close> is false, no group is
  created, and \<^verbatim>\<open>acc[curr.keyword].push\<close> is not a function: the callback throws.
\<close>

definition group_step ::
  "(string \<times> ranking_record list) list \<Rightarrow> ranking_record
     \<Rightarrow> error + (string \<times> ranking_record list) list" where
  "group_step groups cur =
     (if inherited_member (keyword cur)
      then Inl (Error ''acc[curr.keyword].push is not a function'')
      else Inr (push_group groups cur))"

fun reduce_groups ::
  "(string \<times> ranking_record list) list \<Rightarrow> ranking_record list
     \<Rightarrow> error + (string \<times> ranking_record list) list" where
  "reduce_groups groups [] = Inr groups"
| "reduce_groups groups (cur # rest) =
     (case group_step groups cur of
        Inl e \<Rightarrow> Inl e
      | Inr groups' \<Rightarrow> reduce_groups groups' rest)"

definition byKeyword :: "ranking_record list \<Rightarrow> error + (string \<times> ranking_record list) list" where
  "byKeyword rankings = reduce_groups [] rankings"

text \<open>
  \<^verbatim>\<open>Object.entries\<close> lists the keys that are array indices (canonical decimal strings
  below \<open>2^32 - 1\<close>) first, in ascending numeric order, then the other keys in creation
  order.
\<close>

definition digit_value :: "char \<Rightarrow> nat" where
  "digit_value c = of_char c - 48"

definition array_index :: "string \<Rightarrow> nat option" where
  "array_index k =
     (if k \<noteq> [] \<and> list_all (\<lambda>c. c \<in> set ''0123456789'') k
      then (let n = foldl (\<lambda>m c. 10 * m + digit_value c) 0 k
            in if show_nat n = k \<and> n < 4294967295 then Some n else None)
      else None)"

definition object_entries :: "(string \<times> 'a) list \<Rightarrow> (string \<times> 'a) list" where
  "object_entries obj =
     map snd (sort_key fst (List.map_filter (\<lambda>e. map_option (\<lambda>n. (n, e)) (array_index (fst e))) obj))
     @ filter (\<lambda>e. array_index (fst e) = None) obj"

text \<open>
  \<^verbatim>\<open>results.sort((a, b) => new Date(b.timestamp) - new Date(a.timestamp))\<close>: a stable
  sort, newest first.
\<close>

definition sort_by_date :: "ranking_record list \<Rightarrow> ranking_record list" where
  "sort_by_date results = sort_key (\<lambda>r. - timestamp r) results"

text \<open>A rank as a number in a comparison: \<^verbatim>\<open>null\<close> counts as \<^verbatim>\<open>0\<close>.\<close>

definition rank_number :: "nat option \<Rightarrow> nat" where
  "rank_number r = (case r of None \<Rightarrow> 0 | Some n \<Rightarrow> n)"

definition trend_of :: "ranking_record \<Rightarrow> ranking_record \<Rightarrow> trend" where
  "trend_of latest previous =
     (if truthy (rank latest) \<and> truthy (rank previous)
      then (if rank_number (rank latest) < rank_number (rank previous) then Improved
            else if rank_number (rank latest) > rank_number (rank previous) then Dropped
            else No_change)
      else Not_available)"

text \<open>The block \<^verbatim>\<open>if (results.length > 1) { ... console.log(`Trend: ${trend}`) }\<close>.\<close>

definition show_trend :: "ranking_record \<Rightarrow> ranking_record list \<Rightarrow> console_line list" where
  "show_trend latest rest =
     (case rest of [] \<Rightarrow> [] | previous # _ \<Rightarrow> [Trend_line (trend_of latest previous)])"

definition rank_text :: "nat option \<Rightarrow> string" where
  "rank_text r = (if truthy r then show_nat (rank_number r) else ''Not Found'')"

definition text_or_null :: "string option \<Rightarrow> string" where
  "text_or_null s = (case s of None \<Rightarrow> ''null'' | Some t \<Rightarrow> t)"

definition group_head :: "string \<Rightarrow> console_line list" where
  "group_head k = [Line (''Keyword: '' @ k), Line ''-------------------'']"

definition group_body :: "ranking_record \<Rightarrow> ranking_record list \<Rightarrow> console_line list" where
  "group_body latest rest =
     [Line (''Latest Rank: '' @ rank_text (rank latest))]
     @ (if truthy (rank latest)
        then [Line (''Title: '' @ text_or_null (title latest)),
              Line (''URL: '' @ text_or_null (url latest))]
        else [])
     @ show_trend latest rest
     @ [Line [CHR 0x0A]]"

text \<open>
  The callback of the \<^verbatim>\<open>forEach\<close> over the groups: what it prints for one keyword,
  and the exception it ends with, if any. A group with no first element would throw at
  \<^verbatim>\<open>latest.rank\<close>, after its two head lines.
\<close>

definition print_group :: "string \<Rightarrow> ranking_record list \<Rightarrow> error option \<times> console_line list" where
  "print_group k results =
     (case sort_by_date results of
        [] \<Rightarrow> (Some (Error ''Cannot read properties of undefined (reading 'rank')''), group_head k)
      | latest # rest \<Rightarrow> (None, group_head k @ group_body latest rest))"

fun print_groups ::
  "(string \<times> ranking_record list) list \<Rightarrow> console_line list \<Rightarrow> (error + unit) \<times> console_line list" where
  "print_groups [] out = (Inr (), out)"
| "print_groups ((k, results) # gs) out =
     (case print_group k results of
        (Some e, ls) \<Rightarrow> (Inl e, out @ ls)
      | (None, ls) \<Rightarrow> print_groups gs (out @ ls))"

definition show_int :: "int \<Rightarrow> string" where
  "show_int i = (if i < 0 then ''-'' @ show_nat (nat (- i)) else show_nat (nat i))"

definition csv_path :: "int \<Rightarrow> string" where
  "csv_path now = ''data/rankings_'' @ show_int now @ ''.csv''"

definition report_header :: "console_line list" where
  "report_header = [Line (CHR 0x0A # ''Ranking Report:''), Line (''=============='' @ [CHR 0x0A])]"

text \<open>
  \<^verbatim>\<open>generateReport(format)\<close> at clock reading \<open>now\<close>. A CSV file is the list of
  records handed to \<^verbatim>\<open>writeRecords\<close>, under its path. The log line after it prints
  \<^verbatim>\<open>csvWriter.csvPath\<close>, a member the writer object does not have.
\<close>

definition generateReport :: "string \<Rightarrow> int \<Rightarrow> analyzer_world \<Rightarrow> (error + unit) \<times> analyzer_world" where
  "generateReport format now w =
     (case results_file w of
        Inl msg \<Rightarrow> (Inl (Error msg), logger Error_level (''Failed to generate report: '' @ msg) w)
      | Inr rankings \<Rightarrow>
          (if length rankings = 0 then (Inr (), logger Warn ''No ranking data available'' w)
           else
             (case byKeyword rankings of
                Inl (Error msg) \<Rightarrow>
                  (Inl (Error msg), logger Error_level (''Failed to generate report: '' @ msg) w)
              | Inr byKw \<Rightarrow>
                  (if format = ''csv''
                   then (case csv_failure w of
                           Some msg \<Rightarrow>
                             (Inl (Error msg),
                              logger Error_level (''Failed to generate report: '' @ msg) w)
                         | None \<Rightarrow>
                             (Inr (),
                              logger Info ''CSV report generated at undefined''
                                (w\<lparr>csv_files := csv_files w @ [(csv_path now, rankings)]\<rparr>)))
                   else (case print_groups (object_entries byKw) (console w @ report_header) of
                           (Inl (Error msg), out) \<Rightarrow>
                             (Inl (Error msg),
                              logger Error_level (''Failed to generate report: '' @ msg)
                                (w\<lparr>console := out\<rparr>))
                         | (Inr u, out) \<Rightarrow> (Inr (), w\<lparr>console := out\<rparr>))))))"

section \<open>RankingAnalyzer.getKeywordSummary\<close>

record history_entry =
  hist_rank :: nat
  hist_date :: int

record keyword_summary =
  current :: "nat option"
  best :: "nat option"
  worst :: "nat option"
  history :: "history_entry list"

definition empty_summary :: keyword_summary where
  "empty_summary = \<lparr>current = None, best = None, worst = None, history = []\<rparr>"

definition push_history ::
  "string \<Rightarrow> history_entry \<Rightarrow> (string \<times> keyword_summary) list \<Rightarrow> (string \<times> keyword_summary) list" where
  "push_history k h summary =
     map (\<lambda>(k', d). if k' = k then (k', d\<lparr>history := history d @ [h]\<rparr>) else (k', d)) summary"

text \<open>
  The body of the first \<^verbatim>\<open>forEach\<close>, for one entry of the file. The summary object
  is an association list of its own keys in the order they were created, as the groups
  are. \<open>collect_own\<close> is the body for a keyword that is not an inherited name.
\<close>

definition collect_own ::
  "(string \<times> keyword_summary) list \<Rightarrow> ranking_record \<Rightarrow> (string \<times> keyword_summary) list" where
  "collect_own summary entry =
     (let summary1 = (if map_of summary (keyword entry) = None
                      then summary @ [(keyword entry, empty_summary)] else summary)
      in if truthy (rank entry)
         then push_history (keyword entry)
                \<lparr>hist_rank = rank_number (rank entry), hist_date = timestamp entry\<rparr> summary1
         else summary1)"

text \<open>
  For a keyword that is an inherited name, \<^verbatim>\<open>!summary[entry.keyword]\<close> is false and no
  entry is created. With a truthy rank, \<^verbatim>\<open>summary[entry.keyword].history\<close> is undefined
  and \<^verbatim>\<open>.push\<close> on it throws; with a falsy rank nothing happens.
\<close>

definition collect_entry ::
  "(string \<times> keyword_summary) list \<Rightarrow> ranking_record \<Rightarrow> error + (string \<times> keyword_summary) list" where
  "collect_entry summary entry =
     (if inherited_member (keyword entry)
      then (if truthy (rank entry)
            then Inl (Error ''Cannot read properties of undefined (reading 'push')'')
            else Inr summary)
      else Inr (collect_own summary entry))"

fun collect_entries ::
  "(string \<times> keyword_summary) list \<Rightarrow> ranking_record list
     \<Rightarrow> error + (string \<times> keyword_summary) list" where
  "collect_entries summary [] = Inr summary"
| "collect_entries summary (entry # rest) =
     (case collect_entry summary entry of
        Inl e \<Rightarrow> Inl e
      | Inr summary' \<Rightarrow> collect_entries summary' rest)"

text \<open>The body of the second \<^verbatim>\<open>forEach\<close>, for one keyword's data.\<close>

definition compute_stats :: "keyword_summary \<Rightarrow> keyword_summary" where
  "compute_stats data =
     (if length (history data) > 0
      then (case sort_key (\<lambda>h. - hist_date h) (history data) of
              [] \<Rightarrow> data
            | h # hs \<Rightarrow>
                data\<lparr>history := h # hs,
                     current := Some (hist_rank h),
                     best := Some (foldl min (hist_rank h) (map hist_rank hs)),
                     worst := Some (foldl max (hist_rank h) (map hist_rank hs))\<rparr>)
      else data)"

definition getKeywordSummary ::
  "analyzer_world \<Rightarrow> (error + (string \<times> keyword_summary) list) \<times> analyzer_world" where
  "getKeywordSummary w =
     (case results_file w of
        Inl msg \<Rightarrow>
          (Inl (Error msg), logger Error_level (''Failed to get keyword summary: '' @ msg) w)
      | Inr rankings \<Rightarrow>
          (case collect_entries [] rankings of
             Inl (Error msg) \<Rightarrow>
               (Inl (Error msg),
                logger Error_level (''Failed to get keyword summary: '' @ msg) w)
           | Inr summary \<Rightarrow> (Inr (map (\<lambda>(k, d). (k, compute_stats d)) summary), w)))"

section \<open>GoogleSearcher\<close>

text \<open>
  The browser is outside the program: each call into it either throws (with a message)
  or returns. \<open>browser_env\<close> fixes the outcome of every call a search can make, per
  result page where the call is made once per page, and the random delays drawn.
\<close>

datatype 'a outcome = Throws string | Returns 'a

record browser_env =
  launch_res :: "unit outcome"
  setup_res :: "unit outcome"
  delay_before :: "nat \<Rightarrow> nat"
  goto_res :: "nat \<Rightarrow> unit outcome"
  captcha_res :: "nat \<Rightarrow> bool outcome"
  navigation_res :: "nat \<Rightarrow> unit outcome"
  evaluate_res :: "nat \<Rightarrow> search_result_item list outcome"
  delay_between :: "nat \<Rightarrow> nat"
  page_close_res :: "unit outcome"
  browser_close_res :: "unit outcome"

datatype event =
    Launch
  | New_page
  | Sleep nat
  | Goto string nat
  | Query_captcha
  | Wait_for_navigation nat
  | Evaluate
  | Page_close
  | Browser_close

text \<open>
  The searcher: whether \<^verbatim>\<open>this.browser\<close> holds a browser, the lines of its log, and
  the calls made to the browser and the timer so far.
\<close>

record searcher =
  browser :: bool
  search_log :: "(level \<times> string) list"
  trace :: "event list"

definition slog :: "level \<Rightarrow> string \<Rightarrow> searcher \<Rightarrow> searcher" where
  "slog lv msg s = s\<lparr>search_log := search_log s @ [(lv, msg)]\<rparr>"

definition emit :: "event \<Rightarrow> searcher \<Rightarrow> searcher" where
  "emit e s = s\<lparr>trace := trace s @ [e]\<rparr>"

definition initialize :: "browser_env \<Rightarrow> searcher \<Rightarrow> string option \<times> searcher" where
  "initialize env s =
     (case launch_res env of
        Throws msg \<Rightarrow> (Some msg, emit Launch s)
      | Returns u \<Rightarrow> (None, (emit Launch s)\<lparr>browser := True\<rparr>))"

definition setupPage :: "browser_env \<Rightarrow> searcher \<Rightarrow> string option \<times> searcher" where
  "setupPage env s =
     (case setup_res env of
        Throws msg \<Rightarrow> (Some msg, emit New_page s)
      | Returns u \<Rightarrow> (None, emit New_page s))"

text \<open>
  The CAPTCHA branch: \<^verbatim>\<open>waitForNavigation({timeout: 60000, ...}).catch(...)\<close>. The
  handler logs and its return value is dropped; nothing is thrown.
\<close>

definition wait_for_captcha :: "browser_env \<Rightarrow> nat \<Rightarrow> searcher \<Rightarrow> searcher" where
  "wait_for_captcha env pageNum s =
     (let s1 = emit (Wait_for_navigation 60000)
                 (slog Info ''CAPTCHA detected - waiting for manual solve...'' s)
      in case navigation_res env pageNum of
           Throws msg \<Rightarrow> slog Error_level ''Timeout waiting for CAPTCHA solution'' s1
         | Returns u \<Rightarrow> s1)"

definition between_pages :: "browser_env \<Rightarrow> nat \<Rightarrow> nat \<Rightarrow> searcher \<Rightarrow> searcher" where
  "between_pages env numPages pageNum s =
     (if int pageNum < int numPages - 1
      then emit (Sleep (delay_between env pageNum))
             (slog Info (''Waiting '' @ show_nat (delay_between env pageNum) @ ''ms before next page...'') s)
      else s)"

text \<open>
  One turn of the \<^verbatim>\<open>for\<close> loop, for page \<open>pageNum\<close>: the exception that left it, if
  any, the results gathered so far, and the searcher. The query URL is fixed by the
  keyword and the \<^verbatim>\<open>start\<close> offset, which \<open>Goto\<close> records.
\<close>

definition visit_page ::
  "browser_env \<Rightarrow> string \<Rightarrow> nat \<Rightarrow> nat \<Rightarrow> search_result_item list \<Rightarrow> searcher
     \<Rightarrow> string option \<times> search_result_item list \<times> searcher" where
  "visit_page env kw numPages pageNum results s =
     (let s1 = slog Info (''Searching page '' @ show_nat (pageNum + 1) @ '' for: '' @ kw) s;
          s2 = emit (Goto kw (pageNum * 10)) (emit (Sleep (delay_before env pageNum)) s1)
      in case goto_res env pageNum of
           Throws msg \<Rightarrow> (Some msg, results, s2)
         | Returns u \<Rightarrow>
             (case captcha_res env pageNum of
                Throws msg \<Rightarrow> (Some msg, results, emit Query_captcha s2)
              | Returns captcha \<Rightarrow>
                  (let s3 = (if captcha then wait_for_captcha env pageNum (emit Query_captcha s2)
                             else emit Query_captcha s2)
                   in case evaluate_res env pageNum of
                        Throws msg \<Rightarrow> (Some msg, results, emit Evaluate s3)
                      | Returns pageResults \<Rightarrow>
                          (None, results @ pageResults,
                           between_pages env numPages pageNum
                             (slog Info (''Found '' @ show_nat (length pageResults)
                                         @ '' results on page '' @ show_nat (pageNum + 1))
                                (emit Evaluate s3))))))"

text \<open>The \<^verbatim>\<open>for\<close> loop over the page numbers still to visit.\<close>

fun search_pages ::
  "browser_env \<Rightarrow> string \<Rightarrow> nat \<Rightarrow> nat list \<Rightarrow> search_result_item list \<Rightarrow> searcher
     \<Rightarrow> string option \<times> search_result_item list \<times> searcher" where
  "search_pages env kw numPages [] results s = (None, results, s)"
| "search_pages env kw numPages (pageNum # rest) results s =
     (case visit_page env kw numPages pageNum results s of
        (Some msg, results', s') \<Rightarrow> (Some msg, results', s')
      | (None, results', s') \<Rightarrow> search_pages env kw numPages rest results' s')"

text \<open>
  The \<^verbatim>\<open>try\<close> block of \<^verbatim>\<open>search\<close>: the exception that left it, if any, whether
  \<^verbatim>\<open>page\<close> was assigned, the results, and the searcher.
\<close>

definition try_search ::
  "browser_env \<Rightarrow> string \<Rightarrow> nat \<Rightarrow> searcher
     \<Rightarrow> string option \<times> bool \<times> search_result_item list \<times> searcher" where
  "try_search env kw numPages s =
     (case (if \<not> browser s then initialize env s else (None, s)) of
        (Some msg, s1) \<Rightarrow> (Some msg, False, [], s1)
      | (None, s1) \<Rightarrow>
          (case setupPage env s1 of
             (Some msg, s2) \<Rightarrow> (Some msg, False, [], s2)
           | (None, s2) \<Rightarrow>
               (case search_pages env kw numPages [0..<numPages] [] s2 of
                  (e, results, s3) \<Rightarrow> (e, True, results, s3))))"

text \<open>
  \<^verbatim>\<open>search(keyword, numPages)\<close>: the \<^verbatim>\<open>try\<close> block, the \<^verbatim>\<open>catch\<close> that only logs,
  the \<^verbatim>\<open>finally\<close> that closes the page, and \<^verbatim>\<open>return results\<close>. \<open>Inl\<close> is a
  rejected call.
\<close>

definition search ::
  "browser_env \<Rightarrow> string \<Rightarrow> nat \<Rightarrow> searcher \<Rightarrow> (error + search_result_item list) \<times> searcher" where
  "search env kw numPages s =
     (case try_search env kw numPages s of
        (e, page, results, s1) \<Rightarrow>
          (let s2 = (case e of Some msg \<Rightarrow> slog Error_level (''Search failed: '' @ msg) s1
                     | None \<Rightarrow> s1)
           in if page
              then (case page_close_res env of
                      Throws msg \<Rightarrow> (Inl (Error msg), emit Page_close s2)
                    | Returns u \<Rightarrow> (Inr results, emit Page_close s2))
              else (Inr results, s2)))"

definition close :: "browser_env \<Rightarrow> searcher \<Rightarrow> (error + unit) \<times> searcher" where
  "close env s =
     (if browser s
      then (case browser_close_res env of
              Throws msg \<Rightarrow> (Inl (Error msg), emit Browser_close s)
            | Returns u \<Rightarrow> (Inr (), (emit Browser_close s)\<lparr>browser := False\<rparr>))
      else (Inr (), s))"

section \<open>Notions used to state the properties\<close>

text \<open>
  The history the summary is said to hold for a keyword: rank and date of every record
  of that keyword whose rank is not null, in store order.
\<close>

definition ranked_history :: "string \<Rightarrow> ranking_record list \<Rightarrow> history_entry list" where
  "ranked_history k store =
     map (\<lambda>r. \<lparr>hist_rank = the (rank r), hist_date = timestamp r\<rparr>)
       (filter (\<lambda>r. keyword r = k \<and> rank r \<noteq> None) store)"

text \<open>
  The entries the first \<^verbatim>\<open>forEach\<close> pushes for a keyword that is not an inherited
  name: those with a truthy rank.
\<close>

definition truthy_history :: "string \<Rightarrow> ranking_record list \<Rightarrow> history_entry list" where
  "truthy_history k store =
     map (\<lambda>r. \<lparr>hist_rank = rank_number (rank r), hist_date = timestamp r\<rparr>)
       (filter (\<lambda>r. keyword r = k \<and> truthy (rank r)) store)"

definition is_trend_line :: "console_line \<Rightarrow> bool" where
  "is_trend_line l = (case l of Trend_line t \<Rightarrow> True | Line x \<Rightarrow> False)"

section \<open>Sample inputs\<close>

definition world0 :: analyzer_world where
  "world0 = \<lparr>results_file = Inr [], write_failure = None, analyzer_log = [], console = [],
     csv_failure = None, csv_files = []\<rparr>"

definition browser_ok :: browser_env where
  "browser_ok =
     \<lparr>launch_res = Returns (), setup_res = Returns (), delay_before = (\<lambda>p. 2000),
      goto_res = (\<lambda>p. Returns ()), captcha_res = (\<lambda>p. Returns False),
      navigation_res = (\<lambda>p. Returns ()), evaluate_res = (\<lambda>p. Returns []),
      delay_between = (\<lambda>p. 3000), page_close_res = Returns (), browser_close_res = Returns ()\<rparr>"

definition searcher0 :: searcher where
  "searcher0 = \<lparr>browser = False, search_log = [], trace = []\<rparr>"

definition browser_lost :: browser_env where
  "browser_lost =
     browser_ok\<lparr>goto_res := (\<lambda>p. Throws ''net::ERR_CONNECTION_CLOSED''),
                page_close_res := Throws ''Protocol error: Connection closed.''\<rparr>"

definition searcher_open :: searcher where
  "searcher_open = \<lparr>browser = True, search_log = [], trace = [Launch]\<rparr>"

definition item_other :: search_result_item where
  "item_other = \<lparr>item_title = ''A'', item_url = ''https://a.com'', item_snippet = Some ''s''\<rparr>"

definition item_target :: search_result_item where
  "item_target = \<lparr>item_title = ''W'', item_url = ''https://webreinvent.com/x'', item_snippet = None\<rparr>"

definition browser_captcha :: browser_env where
  "browser_captcha =
     browser_ok\<lparr>captcha_res := (\<lambda>p. Returns True),
                navigation_res := (\<lambda>p. Throws ''Navigation timeout of 60000 ms exceeded''),
                evaluate_res := (\<lambda>p. Returns [item_other])\<rparr>"

definition store_history :: "ranking_record list" where
  "store_history =
     [\<lparr>keyword = ''kw'', rank = Some 9, title = Some ''W'', url = Some ''u'',
       timestamp = 100, snippet = Some []\<rparr>,
      \<lparr>keyword = ''kw'', rank = Some 7, title = Some ''W'', url = Some ''u'',
       timestamp = 300, snippet = Some []\<rparr>,
      \<lparr>keyword = ''other'', rank = None, title = None, url = None,
       timestamp = 250, snippet = None\<rparr>,
      \<lparr>keyword = ''kw'', rank = Some 2, title = Some ''W'', url = Some ''u'',
       timestamp = 200, snippet = Some []\<rparr>]"

definition world_history :: analyzer_world where
  "world_history = world0\<lparr>results_file := Inr store_history\<rparr>"

definition world_single :: analyzer_world where
  "world_single =
     world0\<lparr>results_file :=
       Inr [\<lparr>keyword = ''kw'', rank = Some 4, title = Some ''W'', url = Some ''u'',
             timestamp = 100, snippet = Some []\<rparr>]\<rparr>"







text \<open>
  The store the program itself leaves after saving a search for the keyword
  \<^verbatim>\<open>constructor\<close>: one that found the domain, and one that did not.
\<close>

definition world_constructor :: analyzer_world where
  "world_constructor = snd (saveResults ''constructor'' [item_target] 100 world0)"

definition world_constructor_null :: analyzer_world where
  "world_constructor_null = snd (saveResults ''constructor'' [] 100 world0)"

section \<open>Facts about the scan\<close>

lemma starts_with_iff: "starts_with s t \<longleftrightarrow> (\<exists>q. s = t @ q)"
  by (induction s t rule: starts_with.induct) auto

lemma includes_iff: "str_includes s t \<longleftrightarrow> (\<exists>p q. s = p @ t @ q)"
proof (induction s)
  case Nil
  then show ?case by auto
next
  case (Cons a s)
  show ?case
  proof
    assume "str_includes (a # s) t"
    then consider "starts_with (a # s) t" | "str_includes s t" by auto
    then show "\<exists>p q. a # s = p @ t @ q"
    proof cases
      case 1
      then obtain q where "a # s = t @ q" using starts_with_iff by blast
      then have "a # s = [] @ t @ q" by simp
      then show ?thesis by blast
    next
      case 2
      then obtain p q where "s = p @ t @ q" using Cons.IH by blast
      then have "a # s = (a # p) @ t @ q" by simp
      then show ?thesis by blast
    qed
  next
    assume "\<exists>p q. a # s = p @ t @ q"
    then obtain p q where pq: "a # s = p @ t @ q" by blast
    show "str_includes (a # s) t"
    proof (cases p)
      case Nil
      with pq have "starts_with (a # s) t" using starts_with_iff by auto
      then show ?thesis by simp
    next
      case (Cons b p')
      with pq have "s = p' @ t @ q" by simp
      then have "str_includes s t" using Cons.IH by blast
      then show ?thesis by simp
    qed
  qed
qed

lemma find_position_None:
  "find_position rs i = None \<longleftrightarrow> (\<forall>r\<in>set rs. \<not> str_includes (item_url r) targetDomain)"
  by (induction rs arbitrary: i) auto

lemma find_position_Some:
  "find_position rs i = Some (n, m) \<Longrightarrow>
     \<exists>j<length rs. n = i + j + 1 \<and> m = rs ! j \<and> str_includes (item_url (rs ! j)) targetDomain
        \<and> (\<forall>l<j. \<not> str_includes (item_url (rs ! l)) targetDomain)"
proof (induction rs arbitrary: i)
  case Nil
  then show ?case by simp
next
  case (Cons r rs)
  show ?case
  proof (cases "str_includes (item_url r) targetDomain")
    case True
    with Cons.prems have "n = i + 0 + 1 \<and> m = (r # rs) ! 0" by simp
    with True show ?thesis by (intro exI[of _ 0]) simp
  next
    case False
    with Cons.prems have "find_position rs (i + 1) = Some (n, m)" by simp
    from Cons.IH[OF this] obtain j where j: "j < length rs" "n = i + 1 + j + 1" "m = rs ! j"
      "str_includes (item_url (rs ! j)) targetDomain"
      "\<forall>l<j. \<not> str_includes (item_url (rs ! l)) targetDomain" by blast
    have "\<forall>l<Suc j. \<not> str_includes (item_url ((r # rs) ! l)) targetDomain"
      using False j(5) by (auto simp: less_Suc_eq_0_disj)
    with j show ?thesis by (intro exI[of _ "Suc j"]) simp
  qed
qed

lemma saveResults_Inr:
  "fst (saveResults kw rs now w) = Inr () \<longleftrightarrow> (\<exists>old. results_file w = Inr old) \<and> write_failure w = None"
  by (auto simp: saveResults_def saveResults_read_def saveResults_write_def add_ranking_def logger_def split: option.splits prod.splits sum.splits)

lemma saveResults_not_found:
  assumes "results_file w = Inr old" and "write_failure w = None"
    and "find_position rs 0 = None"
  shows "saveResults kw rs now w =
           (Inr (), (logger Warn (not_found_message kw) w)
                      \<lparr>results_file := Inr (old @ [not_found_record kw now])\<rparr>)"
  using assms by (simp add: saveResults_def saveResults_read_def saveResults_write_def add_ranking_def logger_def)

lemma saveResults_found:
  assumes "results_file w = Inr old" and "write_failure w = None"
    and "find_position rs 0 = Some (n, m)"
  shows "saveResults kw rs now w =
           (Inr (), (logger Info (found_message n kw) w)
                      \<lparr>results_file := Inr (old @ [found_record kw n m now])\<rparr>)"
proof -
  from find_position_Some[OF assms(3)] have "n \<noteq> 0" by auto
  with assms show ?thesis by (simp add: saveResults_def saveResults_read_def saveResults_write_def add_ranking_def logger_def)
qed


lemma find_position_first:
  assumes "i < length rs" and "str_includes (item_url (rs ! i)) targetDomain"
    and "\<forall>j<i. \<not> str_includes (item_url (rs ! j)) targetDomain"
  shows "find_position rs k = Some (k + i + 1, rs ! i)"
  using assms
proof (induction rs arbitrary: i k)
  case Nil
  then show ?case by simp
next
  case (Cons r rs)
  show ?case
  proof (cases i)
    case 0
    with Cons.prems show ?thesis by simp
  next
    case (Suc i')
    with Cons.prems have "\<not> str_includes (item_url r) targetDomain" by auto
    moreover have "find_position rs (k + 1) = Some (k + 1 + i' + 1, rs ! i')"
    proof (rule Cons.IH)
      show "i' < length rs" using Cons.prems Suc by simp
      show "str_includes (item_url (rs ! i')) targetDomain" using Cons.prems Suc by simp
      show "\<forall>j<i'. \<not> str_includes (item_url (rs ! j)) targetDomain"
        using Cons.prems(3) Suc by auto
    qed
    ultimately show ?thesis using Suc by simp
  qed
qed

lemma target_substring:
  "str_includes u targetDomain \<longleftrightarrow> (\<exists>p q. u = p @ ''webreinvent.com'' @ q)"
  unfolding includes_iff targetDomain_def ..

text \<open>Ranks written by \<^verbatim>\<open>saveResults\<close> are positions, never \<^verbatim>\<open>0\<close>.\<close>

lemma saved_ranks_nonzero:
  assumes "results_file w = Inr old" and "\<forall>r\<in>set old. rank r \<noteq> Some 0"
    and "results_file (snd (saveResults kw rs now w)) = Inr new"
  shows "\<forall>r\<in>set new. rank r \<noteq> Some 0"
proof (cases "write_failure w")
  case None
  show ?thesis
  proof (cases "find_position rs 0")
    case N: None
    from saveResults_not_found[OF assms(1) None N, of kw now] assms(2,3)
    show ?thesis by (auto simp: not_found_record_def)
  next
    case (Some a)
    obtain n m where "a = (n, m)" by (cases a)
    with Some have found: "find_position rs 0 = Some (n, m)" by simp
    from find_position_Some[OF found] have "n \<noteq> 0" by auto
    with saveResults_found[OF assms(1) None found, of kw now] assms(2,3)
    show ?thesis by (auto simp: found_record_def)
  qed
next
  case (Some msg)
  then have "results_file (snd (saveResults kw rs now w)) = results_file w"
    using assms(1)
    by (simp add: saveResults_def saveResults_read_def saveResults_write_def add_ranking_def logger_def split: option.splits if_splits)
  with assms show ?thesis by simp
qed

section \<open>The store is append-only\<close>






section \<open>The rank that is saved\<close>

text \<open>
  C1. For every keyword and every list of search results, a call of \<^verbatim>\<open>saveResults\<close>
  that reads and writes the file appends a record whose rank is 1 plus the index of the
  first item whose url contains the target domain, with the title and url of that item,
  and whose rank is null when no item's url contains it. Containing the target domain
  means having \<^verbatim>\<open>webreinvent.com\<close> as a substring.
\<close>

theorem saveResults_rank:
  assumes "results_file w = Inr old" and "write_failure w = None"
  shows "\<exists>r. results_file (snd (saveResults kw rs now w)) = Inr (old @ [r])
           \<and> (\<forall>i<length rs.
                 str_includes (item_url (rs ! i)) targetDomain
                 \<and> (\<forall>j<i. \<not> str_includes (item_url (rs ! j)) targetDomain)
                 \<longrightarrow> rank r = Some (1 + i) \<and> title r = Some (item_title (rs ! i))
                      \<and> url r = Some (item_url (rs ! i)))
           \<and> ((\<forall>i<length rs. \<not> str_includes (item_url (rs ! i)) targetDomain) \<longrightarrow> rank r = None)
           \<and> (\<forall>u. str_includes u targetDomain \<longleftrightarrow> (\<exists>p q. u = p @ ''webreinvent.com'' @ q))"
proof (cases "find_position rs 0")
  case None
  then have none: "\<forall>i<length rs. \<not> str_includes (item_url (rs ! i)) targetDomain"
    by (simp add: find_position_None)
  have "results_file (snd (saveResults kw rs now w)) = Inr (old @ [not_found_record kw now])"
    using saveResults_not_found[OF assms None] by simp
  moreover have "rank (not_found_record kw now) = None"
    by (simp add: not_found_record_def)
  ultimately show ?thesis using none target_substring by blast
next
  case (Some a)
  obtain n m where "a = (n, m)" by (cases a)
  with Some have found: "find_position rs 0 = Some (n, m)" by simp
  have stored: "results_file (snd (saveResults kw rs now w)) = Inr (old @ [found_record kw n m now])"
    using saveResults_found[OF assms found] by simp
  have first: "rank (found_record kw n m now) = Some (1 + i)
               \<and> title (found_record kw n m now) = Some (item_title (rs ! i))
               \<and> url (found_record kw n m now) = Some (item_url (rs ! i))"
    if "i < length rs" and "str_includes (item_url (rs ! i)) targetDomain"
      and "\<forall>j<i. \<not> str_includes (item_url (rs ! j)) targetDomain" for i
  proof -
    from find_position_first[OF that, of 0] found have "n = 1 + i" and "m = rs ! i" by simp_all
    then show ?thesis by (simp add: found_record_def)
  qed
  have some: "\<not> (\<forall>i<length rs. \<not> str_includes (item_url (rs ! i)) targetDomain)"
    using find_position_Some[OF found] by blast
  show ?thesis
  proof (intro exI[of _ "found_record kw n m now"] conjI allI impI)
    show "results_file (snd (saveResults kw rs now w)) = Inr (old @ [found_record kw n m now])"
      by (rule stored)
  next
    fix i assume "i < length rs"
      and "str_includes (item_url (rs ! i)) targetDomain
           \<and> (\<forall>j<i. \<not> str_includes (item_url (rs ! j)) targetDomain)"
    then show "rank (found_record kw n m now) = Some (1 + i)"
      and "title (found_record kw n m now) = Some (item_title (rs ! i))"
      and "url (found_record kw n m now) = Some (item_url (rs ! i))"
      using first by blast+
  next
    assume "\<forall>i<length rs. \<not> str_includes (item_url (rs ! i)) targetDomain"
    with some show "rank (found_record kw n m now) = None" by blast
  next
    fix u show "str_includes u targetDomain = (\<exists>p q. u = p @ ''webreinvent.com'' @ q)"
      by (rule target_substring)
  qed
qed

theorem saveResults_rank_witness:
  "\<exists>r. results_file (snd (saveResults ''kw'' [item_other, item_target] 5 world0)) = Inr [r]
       \<and> rank r = Some 2 \<and> title r = Some ''W'' \<and> url r = Some ''https://webreinvent.com/x''"
proof -
  let ?rs = "[item_other, item_target]"
  have h1: "results_file world0 = Inr []" and h2: "write_failure world0 = None"
    by (simp_all add: world0_def)
  from saveResults_rank[OF h1 h2, of "''kw''" ?rs 5] obtain r
    where r: "results_file (snd (saveResults ''kw'' ?rs 5 world0)) = Inr ([] @ [r])"
      and first: "\<forall>i<length ?rs.
                 str_includes (item_url (?rs ! i)) targetDomain
                 \<and> (\<forall>j<i. \<not> str_includes (item_url (?rs ! j)) targetDomain)
                 \<longrightarrow> rank r = Some (1 + i) \<and> title r = Some (item_title (?rs ! i))
                      \<and> url r = Some (item_url (?rs ! i))"
    by blast
  have "str_includes (item_url (?rs ! 1)) targetDomain
        \<and> (\<forall>j<1. \<not> str_includes (item_url (?rs ! j)) targetDomain)"
    by (simp add: item_other_def item_target_def targetDomain_def)
  moreover have "(1::nat) < length ?rs" by simp
  ultimately have "rank r = Some (1 + 1) \<and> title r = Some (item_title (?rs ! 1))
                      \<and> url r = Some (item_url (?rs ! 1))"
    using first by blast
  then have "rank r = Some 2 \<and> title r = Some ''W'' \<and> url r = Some ''https://webreinvent.com/x''"
    by (simp add: item_target_def)
  with r show ?thesis by auto
qed

section \<open>The record of a search that did not find the domain\<close>

text \<open>
  C3. For every keyword, \<^verbatim>\<open>saveResults\<close> with a results list in which no url
  contains the target domain (the empty list among them) appends a record with the
  given keyword, the timestamp of the call, and rank, title, url and snippet all null,
  and logs the "not found" warning; nothing else changes.
\<close>

theorem saveResults_no_match:
  assumes "results_file w = Inr old" and "write_failure w = None"
    and "\<forall>r\<in>set rs. \<not> str_includes (item_url r) targetDomain"
  shows "saveResults kw rs now w =
           (Inr (),
            w\<lparr>results_file :=
                 Inr (old @ [\<lparr>keyword = kw, rank = None, title = None, url = None,
                               timestamp = now, snippet = None\<rparr>]),
              analyzer_log :=
                 analyzer_log w
                 @ [(Warn, ''webreinvent.com not found in results for '' @ [CHR 0x22] @ kw @ [CHR 0x22])]\<rparr>)"
proof -
  from assms(3) have "find_position rs 0 = None" by (simp add: find_position_None)
  from saveResults_not_found[OF assms(1,2) this]
  show ?thesis
    by (simp add: logger_def not_found_record_def not_found_message_def targetDomain_def dquote_def)
qed

theorem saveResults_no_match_witness:
  "saveResults ''kw'' [] 5 world0 =
     (Inr (),
      world0\<lparr>results_file :=
                Inr [\<lparr>keyword = ''kw'', rank = None, title = None, url = None,
                      timestamp = 5, snippet = None\<rparr>],
             analyzer_log :=
                [(Warn, ''webreinvent.com not found in results for '' @ [CHR 0x22] @ ''kw'' @ [CHR 0x22])]\<rparr>)"
proof -
  have h1: "results_file world0 = Inr []" and h2: "write_failure world0 = None"
    and l: "analyzer_log world0 = []"
    by (simp_all add: world0_def)
  have h3: "\<forall>r\<in>set []. \<not> str_includes (item_url r) targetDomain" by simp
  from saveResults_no_match[OF h1 h2 h3, of "''kw''" 5] l show ?thesis by simp
qed

section \<open>The snippet that is saved\<close>

text \<open>
  C10. The record appended by a successful \<^verbatim>\<open>saveResults\<close> has a snippet whenever it
  has a rank, and has no snippet exactly when it has no rank. When the matched item's
  snippet is missing or empty the empty string is stored, otherwise the item's snippet.
\<close>

theorem saveResults_snippet:
  assumes "fst (saveResults kw rs now w) = Inr ()"
  shows "\<exists>old r. results_file w = Inr old
           \<and> results_file (snd (saveResults kw rs now w)) = Inr (old @ [r])
           \<and> (rank r \<noteq> None \<longrightarrow> snippet r \<noteq> None)
           \<and> (snippet r = None \<longleftrightarrow> rank r = None)
           \<and> (\<forall>i<length rs.
                 str_includes (item_url (rs ! i)) targetDomain
                 \<and> (\<forall>j<i. \<not> str_includes (item_url (rs ! j)) targetDomain)
                 \<longrightarrow> (item_snippet (rs ! i) = None \<or> item_snippet (rs ! i) = Some []
                        \<longrightarrow> snippet r = Some [])
                      \<and> (\<forall>t. item_snippet (rs ! i) = Some t \<longrightarrow> snippet r = Some t))"
proof -
  from assms obtain old where old: "results_file w = Inr old" and wf: "write_failure w = None"
    using saveResults_Inr by blast
  show ?thesis
  proof (cases "find_position rs 0")
    case None
    then have none: "\<forall>i<length rs. \<not> str_includes (item_url (rs ! i)) targetDomain"
      by (simp add: find_position_None)
    have "results_file (snd (saveResults kw rs now w)) = Inr (old @ [not_found_record kw now])"
      using saveResults_not_found[OF old wf None] by simp
    moreover have "rank (not_found_record kw now) = None" "snippet (not_found_record kw now) = None"
      by (simp_all add: not_found_record_def)
    ultimately show ?thesis using old none by auto
  next
    case (Some a)
    obtain n m where "a = (n, m)" by (cases a)
    with Some have found: "find_position rs 0 = Some (n, m)" by simp
    let ?r = "found_record kw n m now"
    have stored: "results_file (snd (saveResults kw rs now w)) = Inr (old @ [?r])"
      using saveResults_found[OF old wf found] by simp
    have r: "rank ?r = Some n" "snippet ?r = Some (snippet_or_empty (item_snippet m))"
      by (simp_all add: found_record_def)
    have first: "(item_snippet (rs ! i) = None \<or> item_snippet (rs ! i) = Some [] \<longrightarrow> snippet ?r = Some [])
                 \<and> (\<forall>t. item_snippet (rs ! i) = Some t \<longrightarrow> snippet ?r = Some t)"
      if "i < length rs" and "str_includes (item_url (rs ! i)) targetDomain"
        and "\<forall>j<i. \<not> str_includes (item_url (rs ! j)) targetDomain" for i
    proof -
      from find_position_first[OF that, of 0] found have "m = rs ! i" by simp
      then show ?thesis using r by (auto simp: snippet_or_empty_def)
    qed
    show ?thesis
      using old stored r first by (intro exI[of _ old] exI[of _ ?r]) simp
  qed
qed


theorem saveResults_snippet_witness:
  "\<exists>r. results_file (snd (saveResults ''kw'' [item_other, item_target] 5 world0)) = Inr [r]
       \<and> snippet r = Some []"
proof -
  let ?rs = "[item_other, item_target]"
  have h: "fst (saveResults ''kw'' ?rs 5 world0) = Inr ()"
    by (simp add: saveResults_Inr world0_def)
  have h1: "results_file world0 = Inr []" by (simp add: world0_def)
  from saveResults_snippet[OF h] h1 obtain r
    where r: "results_file (snd (saveResults ''kw'' ?rs 5 world0)) = Inr ([] @ [r])"
      and first: "\<forall>i<length ?rs.
                 str_includes (item_url (?rs ! i)) targetDomain
                 \<and> (\<forall>j<i. \<not> str_includes (item_url (?rs ! j)) targetDomain)
                 \<longrightarrow> (item_snippet (?rs ! i) = None \<or> item_snippet (?rs ! i) = Some []
                        \<longrightarrow> snippet r = Some [])
                      \<and> (\<forall>t. item_snippet (?rs ! i) = Some t \<longrightarrow> snippet r = Some t)"
    by auto
  have "str_includes (item_url (?rs ! 1)) targetDomain
        \<and> (\<forall>j<1. \<not> str_includes (item_url (?rs ! j)) targetDomain)"
    by (simp add: item_other_def item_target_def targetDomain_def)
  moreover have "(1::nat) < length ?rs" by simp
  moreover have "item_snippet (?rs ! 1) = None" by (simp add: item_target_def)
  ultimately have "snippet r = Some []" using first by blast
  with r show ?thesis by auto
qed

section \<open>A report on an empty store\<close>

text \<open>
  C7. When the store holds zero records, \<^verbatim>\<open>generateReport\<close> logs a warning and returns,
  whatever the format: nothing is printed on the console and no CSV file is created.
\<close>

theorem generateReport_empty:
  assumes "results_file w = Inr []"
  shows "generateReport format now w =
           (Inr (), w\<lparr>analyzer_log := analyzer_log w @ [(Warn, ''No ranking data available'')]\<rparr>)
         \<and> console (snd (generateReport format now w)) = console w
         \<and> csv_files (snd (generateReport format now w)) = csv_files w"
  using assms by (simp add: generateReport_def logger_def)

theorem generateReport_empty_witness:
  "generateReport ''csv'' 7 world0 =
     (Inr (), world0\<lparr>analyzer_log := [(Warn, ''No ranking data available'')]\<rparr>)
   \<and> console (snd (generateReport ''csv'' 7 world0)) = []
   \<and> csv_files (snd (generateReport ''csv'' 7 world0)) = []"
proof -
  have h: "results_file world0 = Inr []" by (simp add: world0_def)
  from generateReport_empty[OF h, of "''csv''" 7] show ?thesis by (simp add: world0_def)
qed

section \<open>Closing the searcher\<close>

text \<open>
  C9. \<^verbatim>\<open>close()\<close> is idempotent: with no browser it does nothing; with a browser that
  closes it releases it and clears the field; and after any \<^verbatim>\<open>close()\<close> that returned,
  the searcher holds no browser and another \<^verbatim>\<open>close()\<close> returns leaving it as it is.
\<close>

theorem close_idempotent:
  "(\<not> browser s \<longrightarrow> close env s = (Inr (), s))
   \<and> (browser s \<and> browser_close_res env = Returns () \<longrightarrow>
        close env s = (Inr (), s\<lparr>browser := False, trace := trace s @ [Browser_close]\<rparr>))
   \<and> (\<forall>s'. close env s = (Inr (), s') \<longrightarrow> \<not> browser s' \<and> close env s' = (Inr (), s'))"
  by (auto simp: close_def emit_def split: outcome.splits)

theorem close_idempotent_witness:
  "close browser_ok searcher_open =
     (Inr (), \<lparr>browser = False, search_log = [], trace = [Launch, Browser_close]\<rparr>)
   \<and> close browser_ok \<lparr>browser = False, search_log = [], trace = [Launch, Browser_close]\<rparr> =
     (Inr (), \<lparr>browser = False, search_log = [], trace = [Launch, Browser_close]\<rparr>)"
proof -
  have h: "browser searcher_open \<and> browser_close_res browser_ok = Returns ()"
    by (simp add: searcher_open_def browser_ok_def)
  have c: "close browser_ok searcher_open =
             (Inr (), \<lparr>browser = False, search_log = [], trace = [Launch, Browser_close]\<rparr>)"
    using close_idempotent[of searcher_open browser_ok] h by (simp add: searcher_open_def)
  with close_idempotent[of searcher_open browser_ok] show ?thesis by blast
qed

section \<open>When a search rejects\<close>

text \<open>
  The \<^verbatim>\<open>catch\<close> of \<^verbatim>\<open>search\<close> swallows every exception of the \<^verbatim>\<open>try\<close> block. The
  call still rejects in exactly one situation: a page was opened and \<^verbatim>\<open>page.close()\<close>
  in the \<^verbatim>\<open>finally\<close> block throws.
\<close>

lemma try_search_page:
  "fst (snd (try_search env kw numPages s)) \<longleftrightarrow>
     (browser s \<or> launch_res env = Returns ()) \<and> setup_res env = Returns ()"
  by (auto simp: try_search_def initialize_def setupPage_def
           split: prod.splits option.splits outcome.splits)

lemma search_rejects_iff:
  "(\<exists>e. fst (search env kw numPages s) = Inl e) \<longleftrightarrow>
     (browser s \<or> launch_res env = Returns ()) \<and> setup_res env = Returns ()
     \<and> (\<exists>msg. page_close_res env = Throws msg)"
proof -
  obtain e page results s1 where t: "try_search env kw numPages s = (e, page, results, s1)"
    by (cases "try_search env kw numPages s") auto
  then have "page \<longleftrightarrow> (browser s \<or> launch_res env = Returns ()) \<and> setup_res env = Returns ()"
    using try_search_page[of env kw numPages s] by simp
  then show ?thesis using t
    by (cases "page_close_res env") (auto simp: search_def Let_def)
qed

lemma search_returns:
  assumes "page_close_res env = Returns ()"
  shows "\<exists>results. fst (search env kw numPages s) = Inr results"
proof (cases "fst (search env kw numPages s)")
  case (Inl e)
  then have "\<exists>msg. page_close_res env = Throws msg" using search_rejects_iff by blast
  with assms show ?thesis by simp
next
  case (Inr results)
  then show ?thesis by blast
qed

text \<open>
  C6 says that \<^verbatim>\<open>search\<close> never throws. With a browser whose connection is lost
  during the first navigation, \<^verbatim>\<open>page.goto\<close> throws, the \<^verbatim>\<open>catch\<close> logs it, and then
  \<^verbatim>\<open>page.close()\<close> throws in the \<^verbatim>\<open>finally\<close> block: the call rejects with that error
  and the caller never receives the results list.
\<close>

theorem search_rejects_when_close_fails:
  "search browser_lost ''kw'' 5 searcher0 =
     (Inl (Error ''Protocol error: Connection closed.''),
      \<lparr>browser = True,
       search_log = [(Info, ''Searching page 1 for: kw''),
                     (Error_level, ''Search failed: net::ERR_CONNECTION_CLOSED'')],
       trace = [Launch, New_page, Sleep 2000, Goto ''kw'' 0, Page_close]\<rparr>)"
  by (simp add: search_def try_search_def initialize_def setupPage_def visit_page_def
        browser_lost_def browser_ok_def searcher0_def emit_def slog_def upt_rec show_nat.simps
        digit_char_def)

section \<open>A CAPTCHA that nobody solves\<close>

text \<open>
  The visit of a page that shows a CAPTCHA form and whose wait for navigation fails:
  the wait is issued with a timeout of 60000 ms, after the probe and before the
  extraction; the timeout is logged; no exception leaves the visit; and what
  \<^verbatim>\<open>page.evaluate\<close> returns is added to the results.
\<close>

lemma visit_page_captcha_timeout:
  assumes "goto_res env p = Returns ()" and "captcha_res env p = Returns True"
    and "navigation_res env p = Throws msg" and "evaluate_res env p = Returns its"
  shows "visit_page env kw n p results s =
           (None, results @ its,
            between_pages env n p
              (s\<lparr>trace := trace s @
                     [Sleep (delay_before env p), Goto kw (p * 10), Query_captcha,
                      Wait_for_navigation 60000, Evaluate],
                 search_log := search_log s @
                     [(Info, ''Searching page '' @ show_nat (p + 1) @ '' for: '' @ kw),
                      (Info, ''CAPTCHA detected - waiting for manual solve...''),
                      (Error_level, ''Timeout waiting for CAPTCHA solution''),
                      (Info, ''Found '' @ show_nat (length its) @ '' results on page ''
                             @ show_nat (p + 1))]\<rparr>))"
  using assms
  by (simp add: visit_page_def wait_for_captcha_def slog_def emit_def Let_def)

text \<open>
  C8 says that on a CAPTCHA timeout the call continues with empty results for that
  page. The handler of the timeout does return \<^verbatim>\<open>[]\<close>, but that value is dropped and
  the extraction runs all the same. Here the only page shows a CAPTCHA form, the wait
  times out, and the extraction that follows finds one item (the CAPTCHA was solved
  just too late): the call logs the timeout and returns that item.
\<close>

theorem captcha_timeout_page_results:
  "search browser_captcha ''kw'' 1 searcher0 =
     (Inr [item_other],
      \<lparr>browser = True,
       search_log = [(Info, ''Searching page 1 for: kw''),
                     (Info, ''CAPTCHA detected - waiting for manual solve...''),
                     (Error_level, ''Timeout waiting for CAPTCHA solution''),
                     (Info, ''Found 1 results on page 1'')],
       trace = [Launch, New_page, Sleep 2000, Goto ''kw'' 0, Query_captcha,
                Wait_for_navigation 60000, Evaluate, Page_close]\<rparr>)
   \<and> [item_other] \<noteq> []"
  by (simp add: search_def try_search_def initialize_def setupPage_def visit_page_def
        wait_for_captcha_def between_pages_def
        browser_captcha_def browser_ok_def searcher0_def emit_def slog_def upt_rec show_nat.simps
        digit_char_def)

section \<open>The keyword summary\<close>

lemma map_fst_push_history: "map fst (push_history k h S) = map fst S"
  by (induction S) (auto simp: push_history_def)

lemma map_of_push_history:
  "map_of (push_history k h S) k' =
     (if k' = k then map_option (\<lambda>d. d\<lparr>history := history d @ [h]\<rparr>) (map_of S k)
      else map_of S k')"
  by (induction S) (auto simp: push_history_def)

lemma distinct_collect_own:
  assumes "distinct (map fst S)"
  shows "distinct (map fst (collect_own S e))"
proof -
  have "map_of S (keyword e) = None \<Longrightarrow> keyword e \<notin> fst ` set S"
    by (simp add: map_of_eq_None_iff)
  with assms show ?thesis
    by (auto simp: collect_own_def Let_def map_fst_push_history)
qed

lemma map_of_collect_own:
  "map_of (collect_own S e) k =
     (case map_of S k of
        Some d \<Rightarrow> Some (if k = keyword e \<and> truthy (rank e)
                        then d\<lparr>history := history d @ truthy_history k [e]\<rparr> else d)
      | None \<Rightarrow> if k = keyword e
                then Some (empty_summary\<lparr>history := truthy_history k [e]\<rparr>) else None)"
  by (auto simp: collect_own_def Let_def map_of_push_history map_add_def truthy_history_def
        empty_summary_def split: option.splits)

lemma truthy_history_Cons:
  "truthy_history k (e # rs) = truthy_history k [e] @ truthy_history k rs"
  by (simp add: truthy_history_def)

lemma truthy_history_other: "k \<noteq> keyword e \<Longrightarrow> truthy_history k [e] = []"
  by (auto simp: truthy_history_def)

lemma truthy_history_falsy: "\<not> truthy (rank e) \<Longrightarrow> truthy_history k [e] = []"
  by (auto simp: truthy_history_def)

lemma map_of_foldl_collect:
  "map_of (foldl collect_own S rs) k =
     (case map_of S k of
        Some d \<Rightarrow> Some (d\<lparr>history := history d @ truthy_history k rs\<rparr>)
      | None \<Rightarrow> if k \<in> keyword ` set rs
                then Some (empty_summary\<lparr>history := truthy_history k rs\<rparr>) else None)"
proof (induction rs arbitrary: S)
  case Nil
  then show ?case by (simp add: truthy_history_def split: option.splits)
next
  case (Cons e rs)
  have "map_of (foldl collect_own S (e # rs)) k = map_of (foldl collect_own (collect_own S e) rs) k"
    by simp
  also have "\<dots> = (case map_of (collect_own S e) k of
        Some d \<Rightarrow> Some (d\<lparr>history := history d @ truthy_history k rs\<rparr>)
      | None \<Rightarrow> if k \<in> keyword ` set rs
                then Some (empty_summary\<lparr>history := truthy_history k rs\<rparr>) else None)"
    by (rule Cons.IH)
  also have "\<dots> = (case map_of S k of
        Some d \<Rightarrow> Some (d\<lparr>history := history d @ truthy_history k (e # rs)\<rparr>)
      | None \<Rightarrow> if k \<in> keyword ` set (e # rs)
                then Some (empty_summary\<lparr>history := truthy_history k (e # rs)\<rparr>) else None)"
    unfolding map_of_collect_own truthy_history_Cons[of k e rs]
    by (auto simp: truthy_history_other truthy_history_falsy empty_summary_def split: option.splits)
  finally show ?case .
qed

lemma distinct_foldl_collect:
  "distinct (map fst S) \<Longrightarrow> distinct (map fst (foldl collect_own S rs))"
  by (induction rs arbitrary: S) (simp_all add: distinct_collect_own)

lemma keys_foldl_collect:
  "fst ` set (foldl collect_own [] rs) = keyword ` set rs"
proof -
  have "k \<in> fst ` set (foldl collect_own [] rs) \<longleftrightarrow> k \<in> keyword ` set rs" for k
  proof -
    have "k \<in> fst ` set (foldl collect_own [] rs) \<longleftrightarrow> map_of (foldl collect_own [] rs) k \<noteq> None"
      by (simp add: map_of_eq_None_iff)
    also have "\<dots> \<longleftrightarrow> k \<in> keyword ` set rs"
      by (simp add: map_of_foldl_collect)
    finally show ?thesis .
  qed
  then show ?thesis by blast
qed

lemma foldl_min: "foldl min (a::nat) xs = Min (set (a # xs))"
proof (induction xs arbitrary: a)
  case Nil
  then show ?case by simp
next
  case (Cons x xs)
  have "foldl min a (x # xs) = Min (set (min a x # xs))" using Cons.IH by simp
  also have "\<dots> = Min (set (a # x # xs))"
    by (cases "xs = []") (simp_all add: min.assoc)
  finally show ?case .
qed

lemma foldl_max: "foldl max (a::nat) xs = Max (set (a # xs))"
proof (induction xs arbitrary: a)
  case Nil
  then show ?case by simp
next
  case (Cons x xs)
  have "foldl max a (x # xs) = Max (set (max a x # xs))" using Cons.IH by simp
  also have "\<dots> = Max (set (a # x # xs))"
    by (cases "xs = []") (simp_all add: max.assoc)
  finally show ?case .
qed

lemma sorted_newest_first:
  "sorted_wrt (\<lambda>a b. f a \<ge> f b) (sort_key (\<lambda>x. - f x) xs)" for f :: "'a \<Rightarrow> int"
proof -
  have "sorted (map (\<lambda>x. - f x) (sort_key (\<lambda>x. - f x) xs))" by (rule sorted_sort_key)
  then show ?thesis by (simp add: sorted_map)
qed

lemma compute_stats_empty:
  "history d = [] \<Longrightarrow> compute_stats d = d"
  by (simp add: compute_stats_def)

lemma compute_stats_ranked:
  assumes "history d \<noteq> []"
  shows "history (compute_stats d) = sort_key (\<lambda>h. - hist_date h) (history d)
         \<and> current (compute_stats d) = Some (hist_rank (hd (history (compute_stats d))))
         \<and> best (compute_stats d) = Some (Min (hist_rank ` set (history (compute_stats d))))
         \<and> worst (compute_stats d) = Some (Max (hist_rank ` set (history (compute_stats d))))"
proof -
  let ?h = "sort_key (\<lambda>h. - hist_date h) (history d)"
  from assms have "?h \<noteq> []" by (metis length_sort list.size(3) length_0_conv)
  then obtain h hs where h: "?h = h # hs" by (cases ?h) auto
  with assms have "compute_stats d =
      d\<lparr>history := h # hs, current := Some (hist_rank h),
        best := Some (foldl min (hist_rank h) (map hist_rank hs)),
        worst := Some (foldl max (hist_rank h) (map hist_rank hs))\<rparr>"
    by (simp add: compute_stats_def)
  then show ?thesis using h by (simp add: foldl_min foldl_max)
qed


lemma truthy_history_ranked:
  assumes "\<forall>r\<in>set store. rank r \<noteq> Some 0"
  shows "truthy_history k store = ranked_history k store"
proof -
  have t: "truthy (rank r) \<longleftrightarrow> rank r \<noteq> None" if "r \<in> set store" for r
    using assms that by (cases "rank r") (auto simp: truthy_def)
  then have "filter (\<lambda>r. keyword r = k \<and> truthy (rank r)) store
             = filter (\<lambda>r. keyword r = k \<and> rank r \<noteq> None) store"
    by (intro filter_cong) auto
  moreover have "map (\<lambda>r. \<lparr>hist_rank = rank_number (rank r), hist_date = timestamp r\<rparr>)
                    (filter (\<lambda>r. keyword r = k \<and> rank r \<noteq> None) store)
                 = map (\<lambda>r. \<lparr>hist_rank = the (rank r), hist_date = timestamp r\<rparr>)
                    (filter (\<lambda>r. keyword r = k \<and> rank r \<noteq> None) store)"
    by (intro map_cong) (auto simp: rank_number_def)
  ultimately show ?thesis by (simp add: truthy_history_def ranked_history_def)
qed

lemma summary_entry:
  assumes "(k, d) \<in> set (map (\<lambda>(k, d). (k, compute_stats d)) (foldl collect_own [] store))"
  shows "d = compute_stats (empty_summary\<lparr>history := truthy_history k store\<rparr>)"
proof -
  let ?F = "foldl collect_own [] store"
  from assms obtain d0 where d0: "(k, d0) \<in> set ?F" and d: "d = compute_stats d0" by auto
  have "distinct (map fst ?F)" by (rule distinct_foldl_collect) simp
  with d0 have "map_of ?F k = Some d0" by simp
  then have "d0 = empty_summary\<lparr>history := truthy_history k store\<rparr>"
    by (simp add: map_of_foldl_collect split: if_splits)
  with d show ?thesis by simp
qed

text \<open>On a store without inherited names the first \<^verbatim>\<open>forEach\<close> never throws.\<close>

lemma collect_entries_ordinary:
  assumes "\<forall>r\<in>set rs. \<not> inherited_member (keyword r)"
  shows "collect_entries S rs = Inr (foldl collect_own S rs)"
  using assms by (induction rs arbitrary: S) (simp_all add: collect_entry_def)

text \<open>
  For every store whose ranks are positions or null and whose keywords are not inherited
  names, \<^verbatim>\<open>getKeywordSummary\<close> returns one entry per keyword of the store. Its history
  holds exactly the records of that keyword with a non-null rank, most recent first;
  \<open>current\<close> is the rank at the head of that history, \<open>best\<close> the numeric minimum and
  \<open>worst\<close> the numeric maximum; a keyword all of whose records have a null rank gets
  null \<open>current\<close>, \<open>best\<close> and \<open>worst\<close> and an empty history.
\<close>

lemma getKeywordSummary_ordinary:
  assumes "results_file w = Inr store" and "\<forall>r\<in>set store. rank r \<noteq> Some 0"
    and "\<forall>r\<in>set store. \<not> inherited_member (keyword r)"
  shows "\<exists>summary. getKeywordSummary w = (Inr summary, w)
           \<and> distinct (map fst summary) \<and> fst ` set summary = keyword ` set store
           \<and> (\<forall>k d. (k, d) \<in> set summary \<longrightarrow>
                 mset (history d) = mset (ranked_history k store)
                 \<and> sorted_wrt (\<lambda>a b. hist_date a \<ge> hist_date b) (history d)
                 \<and> (ranked_history k store = [] \<longrightarrow>
                      current d = None \<and> best d = None \<and> worst d = None \<and> history d = [])
                 \<and> (ranked_history k store \<noteq> [] \<longrightarrow>
                      current d = Some (hist_rank (hd (history d)))
                      \<and> best d = Some (Min (hist_rank ` set (history d)))
                      \<and> worst d = Some (Max (hist_rank ` set (history d)))))"
proof -
  let ?F = "foldl collect_own [] store"
  let ?summary = "map (\<lambda>(k, d). (k, compute_stats d)) ?F"
  have fsts: "map fst ?summary = map fst ?F" by (induction ?F) auto
  have res: "getKeywordSummary w = (Inr ?summary, w)"
    using assms(1) collect_entries_ordinary[OF assms(3), of "[]"]
    by (simp add: getKeywordSummary_def)
  have dist: "distinct (map fst ?summary)"
    unfolding fsts by (rule distinct_foldl_collect) simp
  have "fst ` set ?summary = set (map fst ?summary)" by (simp only: set_map)
  also have "\<dots> = set (map fst ?F)" by (simp only: fsts)
  also have "\<dots> = fst ` set ?F" by (simp only: set_map)
  finally have keys: "fst ` set ?summary = keyword ` set store"
    by (simp only: keys_foldl_collect)
  have each: "mset (history d) = mset (ranked_history k store)
              \<and> sorted_wrt (\<lambda>a b. hist_date a \<ge> hist_date b) (history d)
              \<and> (ranked_history k store = [] \<longrightarrow>
                   current d = None \<and> best d = None \<and> worst d = None \<and> history d = [])
              \<and> (ranked_history k store \<noteq> [] \<longrightarrow>
                   current d = Some (hist_rank (hd (history d)))
                   \<and> best d = Some (Min (hist_rank ` set (history d)))
                   \<and> worst d = Some (Max (hist_rank ` set (history d))))"
    if "(k, d) \<in> set ?summary" for k d
  proof -
    let ?d0 = "empty_summary\<lparr>history := ranked_history k store\<rparr>"
    have d: "d = compute_stats ?d0"
      using summary_entry[OF that] truthy_history_ranked[OF assms(2)] by simp
    have h0: "history ?d0 = ranked_history k store" by simp
    show ?thesis
    proof (cases "ranked_history k store = []")
      case True
      then have "d = ?d0" using d compute_stats_empty[of ?d0] by simp
      then show ?thesis using True by (simp add: empty_summary_def)
    next
      case False
      then have ne: "history ?d0 \<noteq> []" by simp
      from compute_stats_ranked[OF ne] d h0
      have h: "history d = sort_key (\<lambda>h. - hist_date h) (ranked_history k store)"
        and c: "current d = Some (hist_rank (hd (history d)))"
        and b: "best d = Some (Min (hist_rank ` set (history d)))"
        and w: "worst d = Some (Max (hist_rank ` set (history d)))"
        by simp_all
      from h have "mset (history d) = mset (ranked_history k store)" by simp
      moreover from h have "sorted_wrt (\<lambda>a b. hist_date a \<ge> hist_date b) (history d)"
        by (simp add: sorted_newest_first)
      ultimately show ?thesis using False c b w by simp
    qed
  qed
  show ?thesis using res dist keys each by blast
qed

text \<open>
  C4 says that \<^verbatim>\<open>getKeywordSummary\<close> returns such an entry per keyword for every store
  state. After the program has saved a search for the keyword \<^verbatim>\<open>constructor\<close> that
  found the domain, the call throws at \<^verbatim>\<open>.history.push\<close>, logs the failure and
  rejects: no summary is returned, for any keyword. After a search for that keyword
  that did not find the domain, the call returns a summary without the keyword, where
  the claim promises an entry with null statistics and an empty history.
\<close>

theorem getKeywordSummary_inherited_keyword:
  "results_file world_constructor =
     Inr [\<lparr>keyword = ''constructor'', rank = Some 1, title = Some ''W'',
           url = Some ''https://webreinvent.com/x'', timestamp = 100, snippet = Some []\<rparr>]
   \<and> fst (getKeywordSummary world_constructor) =
     Inl (Error ''Cannot read properties of undefined (reading 'push')'')
   \<and> results_file world_constructor_null =
     Inr [\<lparr>keyword = ''constructor'', rank = None, title = None, url = None,
           timestamp = 100, snippet = None\<rparr>]
   \<and> fst (getKeywordSummary world_constructor_null) = Inr []"
  by (simp add: getKeywordSummary_def collect_entry_def inherited_member_def truthy_def
        world_constructor_def world_constructor_null_def saveResults_def saveResults_read_def
        saveResults_write_def add_ranking_def logger_def world0_def found_record_def
        not_found_record_def snippet_or_empty_def item_target_def targetDomain_def)

section \<open>The console report\<close>

text \<open>
  Grouping keeps, for each keyword of the store, its records in store order; no group
  is empty, so the report never throws and prints one block per group.
\<close>

lemma keys_push_group:
  "fst ` set (push_group G cur) = insert (keyword cur) (fst ` set G)"
  by (induction G cur rule: push_group.induct) auto

lemma distinct_push_group:
  "distinct (map fst G) \<Longrightarrow> distinct (map fst (push_group G cur))"
  by (induction G cur rule: push_group.induct) (auto simp: keys_push_group)

lemma map_of_push_group:
  "map_of (push_group G cur) k =
     (if k = keyword cur
      then Some ((case map_of G k of Some rs \<Rightarrow> rs | None \<Rightarrow> []) @ [cur])
      else map_of G k)"
  by (induction G cur rule: push_group.induct) auto

lemma map_of_foldl_push_group:
  "map_of (foldl push_group G rs) k =
     (case map_of G k of
        Some g \<Rightarrow> Some (g @ filter (\<lambda>r. keyword r = k) rs)
      | None \<Rightarrow> if k \<in> keyword ` set rs then Some (filter (\<lambda>r. keyword r = k) rs) else None)"
proof (induction rs arbitrary: G)
  case Nil
  then show ?case by (simp split: option.splits)
next
  case (Cons e rs)
  have "map_of (foldl push_group G (e # rs)) k = map_of (foldl push_group (push_group G e) rs) k"
    by simp
  also have "\<dots> = (case map_of (push_group G e) k of
        Some g \<Rightarrow> Some (g @ filter (\<lambda>r. keyword r = k) rs)
      | None \<Rightarrow> if k \<in> keyword ` set rs then Some (filter (\<lambda>r. keyword r = k) rs) else None)"
    by (rule Cons.IH)
  also have "\<dots> = (case map_of G k of
        Some g \<Rightarrow> Some (g @ filter (\<lambda>r. keyword r = k) (e # rs))
      | None \<Rightarrow> if k \<in> keyword ` set (e # rs)
                then Some (filter (\<lambda>r. keyword r = k) (e # rs)) else None)"
    unfolding map_of_push_group by (auto split: option.splits)
  finally show ?case .
qed

lemma reduce_groups_ordinary:
  assumes "\<forall>r\<in>set rs. \<not> inherited_member (keyword r)"
  shows "reduce_groups G rs = Inr (foldl push_group G rs)"
  using assms by (induction rs arbitrary: G) (simp_all add: group_step_def)

lemma distinct_groups: "distinct (map fst (foldl push_group [] store))"
proof -
  have "distinct (map fst G) \<Longrightarrow> distinct (map fst (foldl push_group G rs))" for G rs
    by (induction rs arbitrary: G) (simp_all add: distinct_push_group)
  from this[of "[]" store] show ?thesis by simp
qed

lemma groups_group:
  assumes "(k, results) \<in> set (foldl push_group [] store)"
  shows "results = filter (\<lambda>r. keyword r = k) store \<and> results \<noteq> []"
proof -
  from assms distinct_groups have "map_of (foldl push_group [] store) k = Some results" by simp
  then have k: "k \<in> keyword ` set store" and r: "results = filter (\<lambda>r. keyword r = k) store"
    by (simp_all add: map_of_foldl_push_group split: if_splits)
  from k have "filter (\<lambda>r. keyword r = k) store \<noteq> []"
    by (auto simp: filter_empty_conv)
  with r show ?thesis by simp
qed

lemma set_index_entries:
  "snd ` set (List.map_filter (\<lambda>e. map_option (\<lambda>n. (n, e)) (array_index (fst e))) obj)
     = {e \<in> set obj. array_index (fst e) \<noteq> None}"
  by (induction obj) (auto split: option.splits)

lemma set_object_entries: "set (object_entries obj) = set obj"
proof -
  have "set (map snd (sort_key fst
          (List.map_filter (\<lambda>e. map_option (\<lambda>n. (n, e)) (array_index (fst e))) obj)))
        = {e \<in> set obj. array_index (fst e) \<noteq> None}"
    using set_index_entries[of obj] by simp
  then show ?thesis unfolding object_entries_def by auto
qed

lemma sort_by_date_nonempty: "results \<noteq> [] \<Longrightarrow> sort_by_date results \<noteq> []"
  by (metis sort_by_date_def length_sort length_0_conv)

lemma print_group_ok:
  assumes "results \<noteq> []"
  shows "\<exists>latest rest. sort_by_date results = latest # rest
           \<and> print_group k results = (None, group_head k @ group_body latest rest)"
proof -
  from sort_by_date_nonempty[OF assms] obtain latest rest
    where "sort_by_date results = latest # rest" by (cases "sort_by_date results") auto
  then show ?thesis by (simp add: print_group_def)
qed

lemma print_groups_ok:
  assumes "\<forall>(k, results)\<in>set gs. results \<noteq> []"
  shows "print_groups gs out
           = (Inr (), out @ concat (map (\<lambda>(k, results). snd (print_group k results)) gs))"
  using assms
proof (induction gs arbitrary: out)
  case Nil
  then show ?case by simp
next
  case (Cons g gs)
  obtain k results where g: "g = (k, results)" by (cases g)
  with Cons.prems have "results \<noteq> []" by simp
  from print_group_ok[OF this, of k] obtain ls where ls: "print_group k results = (None, ls)"
    by blast
  from Cons.prems have "\<forall>(k, results)\<in>set gs. results \<noteq> []" by simp
  from Cons.IH[OF this, of "out @ ls"] show ?case using g ls by simp
qed

lemma generateReport_console:
  assumes "results_file w = Inr store" and "store \<noteq> []" and "format \<noteq> ''csv''"
    and "\<forall>r\<in>set store. \<not> inherited_member (keyword r)"
  shows "byKeyword store = Inr (foldl push_group [] store)
         \<and> generateReport format now w =
           (Inr (), w\<lparr>console := console w @ report_header
              @ concat (map (\<lambda>(k, results). snd (print_group k results))
                          (object_entries (foldl push_group [] store)))\<rparr>)"
proof -
  have g: "byKeyword store = Inr (foldl push_group [] store)"
    unfolding byKeyword_def by (rule reduce_groups_ordinary[OF assms(4)])
  have "\<forall>(k, results)\<in>set (object_entries (foldl push_group [] store)). results \<noteq> []"
    using groups_group by (auto simp: set_object_entries)
  from print_groups_ok[OF this, of "console w @ report_header"] assms(1-3) g
  show ?thesis by (simp add: generateReport_def)
qed

text \<open>
  With a keyword that is an inherited name in the store, the grouping throws and the
  report is not produced, whatever the format.
\<close>

lemma generateReport_inherited_keyword:
  "fst (generateReport format now world_constructor) =
     Inl (Error ''acc[curr.keyword].push is not a function'')"
  by (simp add: generateReport_def byKeyword_def group_step_def inherited_member_def
        world_constructor_def saveResults_def saveResults_read_def saveResults_write_def
        add_ranking_def logger_def world0_def found_record_def item_target_def targetDomain_def)

lemma trend_lines_group_body:
  "filter is_trend_line (group_body latest rest) = show_trend latest rest"
  by (auto simp: group_body_def show_trend_def is_trend_line_def split: list.splits)

lemma trend_lines_group_head: "filter is_trend_line (group_head k) = []"
  by (simp add: group_head_def is_trend_line_def)

lemma trend_of_ranked:
  assumes "rank latest \<noteq> Some 0" and "rank previous \<noteq> Some 0"
  shows "trend_of latest previous =
           (if rank latest = None \<or> rank previous = None then Not_available
            else if the (rank latest) < the (rank previous) then Improved
            else if the (rank latest) > the (rank previous) then Dropped
            else No_change)"
  using assms
  by (cases "rank latest"; cases "rank previous") (auto simp: trend_of_def truthy_def rank_number_def)

lemma sort_by_date_sorted:
  "sorted_wrt (\<lambda>a b. timestamp a \<ge> timestamp b) (sort_by_date results)"
proof -
  have "sorted (map (\<lambda>r. - timestamp r) (sort_by_date results))"
    unfolding sort_by_date_def by (rule sorted_sort_key)
  then show ?thesis by (simp add: sorted_map)
qed

text \<open>
  C2 as stated gives the marker "N/A" to a keyword with fewer than two records. For a
  store with a single record the report prints the keyword, the latest rank, the title
  and the url, and no trend line at all.
\<close>

theorem single_record_trend_counterexample:
  "generateReport ''console'' 7 world_single =
     (Inr (),
      world_single\<lparr>console :=
        [Line (CHR 0x0A # ''Ranking Report:''), Line (''=============='' @ [CHR 0x0A]),
         Line ''Keyword: kw'', Line ''-------------------'', Line ''Latest Rank: 4'',
         Line ''Title: W'', Line ''URL: u'', Line [CHR 0x0A]]\<rparr>)
   \<and> Trend_line Not_available \<notin> set (console (snd (generateReport ''console'' 7 world_single)))"
  by (simp add: generateReport_def world_single_def world0_def byKeyword_def group_step_def
        inherited_member_def object_entries_def array_index_def List.map_filter_def print_group_def sort_by_date_def group_head_def
        group_body_def show_trend_def rank_text_def truthy_def rank_number_def text_or_null_def
        report_header_def show_nat.simps digit_char_def)


text \<open>
  C2, amended. In a console report that is printed (on a store whose ranks are positions
  or null and none of whose keywords is an inherited name), each keyword group holds the
  records of that keyword and is sorted by timestamp, newest first. When the group has
  at least two records the block has exactly one trend line, comparing the most recent
  record with the second most recent: "improved" when the latest rank is smaller,
  "dropped" when it is larger, "no change" when they are equal, "N/A" when either rank
  is null. When the group has a single record the block has no trend line.
\<close>

theorem console_trend:
  assumes "results_file w = Inr store" and "store \<noteq> []" and "format \<noteq> ''csv''"
    and "\<forall>r\<in>set store. rank r \<noteq> Some 0"
    and "\<forall>r\<in>set store. \<not> inherited_member (keyword r)"
  shows "\<exists>groups. byKeyword store = Inr groups
         \<and> generateReport format now w =
           (Inr (), w\<lparr>console := console w @ report_header
              @ concat (map (\<lambda>(k, results). snd (print_group k results))
                          (object_entries groups))\<rparr>)
         \<and> (\<forall>k results. (k, results) \<in> set (object_entries groups) \<longrightarrow>
               results = filter (\<lambda>r. keyword r = k) store
               \<and> (\<exists>latest rest.
                     sort_by_date results = latest # rest
                     \<and> mset (latest # rest) = mset results
                     \<and> sorted_wrt (\<lambda>a b. timestamp a \<ge> timestamp b) (latest # rest)
                     \<and> filter is_trend_line (snd (print_group k results)) =
                         (case rest of
                            [] \<Rightarrow> []
                          | previous # older \<Rightarrow>
                              [Trend_line
                                 (if rank latest = None \<or> rank previous = None then Not_available
                                  else if the (rank latest) < the (rank previous) then Improved
                                  else if the (rank latest) > the (rank previous) then Dropped
                                  else No_change)])))"
proof (intro exI[of _ "foldl push_group [] store"] conjI allI impI)
  show "byKeyword store = Inr (foldl push_group [] store)"
    using generateReport_console[OF assms(1-3,5)] by simp
  show "generateReport format now w =
           (Inr (), w\<lparr>console := console w @ report_header
              @ concat (map (\<lambda>(k, results). snd (print_group k results))
                          (object_entries (foldl push_group [] store)))\<rparr>)"
    using generateReport_console[OF assms(1-3,5)] by simp
next
  fix k results assume "(k, results) \<in> set (object_entries (foldl push_group [] store))"
  then have g: "(k, results) \<in> set (foldl push_group [] store)" by (simp add: set_object_entries)
  from groups_group[OF g] show "results = filter (\<lambda>r. keyword r = k) store" by simp
  from groups_group[OF g] have ne: "results \<noteq> []" and sub: "set results \<subseteq> set store" by auto
  from print_group_ok[OF ne, of k] obtain latest rest
    where s: "sort_by_date results = latest # rest"
      and p: "print_group k results = (None, group_head k @ group_body latest rest)" by blast
  have m: "mset (latest # rest) = mset results"
    using s by (metis sort_by_date_def mset_sort)
  have so: "sorted_wrt (\<lambda>a b. timestamp a \<ge> timestamp b) (latest # rest)"
    using sort_by_date_sorted[of results] s by simp
  have "set (latest # rest) = set results" using m by (metis set_mset_mset)
  with sub assms(4) have nz: "\<forall>r\<in>set (latest # rest). rank r \<noteq> Some 0" by blast
  have t: "filter is_trend_line (snd (print_group k results)) =
             (case rest of
                [] \<Rightarrow> []
              | previous # older \<Rightarrow>
                  [Trend_line
                     (if rank latest = None \<or> rank previous = None then Not_available
                      else if the (rank latest) < the (rank previous) then Improved
                      else if the (rank latest) > the (rank previous) then Dropped
                      else No_change)])"
  proof (cases rest)
    case Nil
    then show ?thesis
      using p by (simp add: trend_lines_group_body trend_lines_group_head show_trend_def)
  next
    case (Cons previous older)
    with nz have "rank latest \<noteq> Some 0" "rank previous \<noteq> Some 0" by simp_all
    from trend_of_ranked[OF this] Cons p show ?thesis
      by (simp add: trend_lines_group_body trend_lines_group_head show_trend_def)
  qed
  from s m so t show "\<exists>latest rest.
                     sort_by_date results = latest # rest
                     \<and> mset (latest # rest) = mset results
                     \<and> sorted_wrt (\<lambda>a b. timestamp a \<ge> timestamp b) (latest # rest)
                     \<and> filter is_trend_line (snd (print_group k results)) =
                         (case rest of
                            [] \<Rightarrow> []
                          | previous # older \<Rightarrow>
                              [Trend_line
                                 (if rank latest = None \<or> rank previous = None then Not_available
                                  else if the (rank latest) < the (rank previous) then Improved
                                  else if the (rank latest) > the (rank previous) then Dropped
                                  else No_change)])"
    by blast
qed

theorem console_trend_witness:
  "generateReport ''console'' 7 world_history =
     (Inr (),
      world_history\<lparr>console :=
        [Line (CHR 0x0A # ''Ranking Report:''), Line (''=============='' @ [CHR 0x0A]),
         Line ''Keyword: kw'', Line ''-------------------'', Line ''Latest Rank: 7'',
         Line ''Title: W'', Line ''URL: u'', Trend_line Dropped, Line [CHR 0x0A],
         Line ''Keyword: other'', Line ''-------------------'', Line ''Latest Rank: Not Found'',
         Line [CHR 0x0A]]\<rparr>)"
proof -
  have h1: "results_file world_history = Inr store_history" by (simp add: world_history_def)
  have h2: "store_history \<noteq> []" by (simp add: store_history_def)
  have h3: "''console'' \<noteq> ''csv''" by simp
  have h4: "\<forall>r\<in>set store_history. rank r \<noteq> Some 0" by (simp add: store_history_def)
  have h5: "\<forall>r\<in>set store_history. \<not> inherited_member (keyword r)"
    by (simp add: store_history_def inherited_member_def)
  have g: "byKeyword store_history =
             Inr [(''kw'', filter (\<lambda>r. keyword r = ''kw'') store_history),
                  (''other'', filter (\<lambda>r. keyword r = ''other'') store_history)]"
    by (simp add: store_history_def byKeyword_def group_step_def inherited_member_def)
  have c: "console world_history = []" by (simp add: world_history_def world0_def)
  from console_trend[OF h1 h2 h3 h4 h5, of 7] obtain groups
    where "byKeyword store_history = Inr groups"
      and r: "generateReport ''console'' 7 world_history =
           (Inr (), world_history\<lparr>console := console world_history @ report_header
              @ concat (map (\<lambda>(k, results). snd (print_group k results))
                          (object_entries groups))\<rparr>)"
    by blast
  with g have "groups = [(''kw'', filter (\<lambda>r. keyword r = ''kw'') store_history),
                         (''other'', filter (\<lambda>r. keyword r = ''other'') store_history)]"
    by simp
  with r show ?thesis
    unfolding c
    by (simp add: store_history_def object_entries_def array_index_def List.map_filter_def
          print_group_def sort_by_date_def group_head_def
          group_body_def show_trend_def trend_of_def rank_text_def truthy_def rank_number_def
          text_or_null_def report_header_def show_nat.simps digit_char_def)
qed

end
